theory Spec2Isabelle
  imports Main
begin

section \<open>The cosmetic interpreter of app.py: tokenizer, parser, executor\<close>

text \<open>
  The development embeds the command language of \<^verbatim>\<open>app.py\<close>: the classes
  \<^verbatim>\<open>CosmeticsTokenizer\<close>, \<^verbatim>\<open>CosmeticsParser\<close> and
  \<^verbatim>\<open>CosmeticsExecutor\<close>. Objects are values, a method that assigns to
  \<^verbatim>\<open>self\<close> returns the updated object, an exception is the left summand of
  the result, and a loop is a recursive function.

  Text is \<^typ>\<open>string\<close>. Two builtins of Python are not defined here: they are
  parameters of the model, written as the first arguments of the functions that call them.
  The parameter \<open>lower\<close> is \<^verbatim>\<open>str.lower\<close>, a function on texts; the parameter
  \<open>isspace\<close> is \<^verbatim>\<open>str.isspace\<close> on one character, the test by which
  \<^verbatim>\<open>str.strip\<close> trims a text. A theorem holds for every function in their place;
  where it needs a property of a builtin, the property is a hypothesis of the theorem.
\<close>

subsection \<open>Strings\<close>

definition dquote :: char where
  "dquote = CHR 0x22"

text \<open>
  \<^verbatim>\<open>s.strip()\<close>: the characters that \<^verbatim>\<open>isspace\<close> holds of are removed
  from the start and from the end of the text.
\<close>

definition strip :: "(char \<Rightarrow> bool) \<Rightarrow> string \<Rightarrow> string" where
  "strip isspace s = rev (dropWhile isspace (rev (dropWhile isspace s)))"

text \<open>\<^verbatim>\<open>text.startswith(cmd)\<close>\<close>

definition startswith :: "string \<Rightarrow> string \<Rightarrow> bool" where
  "startswith text cmd = (take (length cmd) text = cmd)"

text \<open>\<^verbatim>\<open>text[i:j]\<close> for indices that are not negative\<close>

definition slice :: "string \<Rightarrow> nat \<Rightarrow> nat \<Rightarrow> string" where
  "slice text i j = take (j - i) (drop i text)"

subsection \<open>Data models\<close>

datatype TokenType = COMMAND | STRING_LITERAL | EOF

datatype Token = Token (ttype: TokenType) (tvalue: string) (tposition: nat)

datatype ASTNode = ASTNode (command: string) (arguments: "string list")

text \<open>
  The two exception classes of the program, and the \<^verbatim>\<open>IndexError\<close> that
  \<^verbatim>\<open>args[0]\<close> raises on an empty list. A \<^verbatim>\<open>ParseError\<close> carries what
  its message is formatted from: the command, the bound and the number of arguments.
\<close>

datatype parse_failure =
    ExpectedCommand
  | UnknownCommand string
  | WrongArity string nat nat nat

datatype error =
    ParseError parse_failure
  | ExecutionError string
  | IndexError

subsection \<open>Tokenizer\<close>

text \<open>The keys of \<^verbatim>\<open>CosmeticsTokenizer.COMMANDS\<close>, in the order of the dictionary.\<close>

definition COMMANDS :: "string list" where
  "COMMANDS =
     [''apply theme'', ''add item'', ''remove item'', ''clear inventory'', ''add item list'',
      ''color palette'', ''assemble cosmetic'', ''register'', ''login'', ''logout'', ''exit'']"

text \<open>
  \<^verbatim>\<open>sorted(self.COMMANDS.keys(), key=len, reverse=True)\<close>: a stable sort, longest
  phrase first; phrases of one length keep the order of the dictionary.
\<close>

definition sorted_commands :: "string list" where
  "sorted_commands = sort_key (\<lambda>cmd. - int (length cmd)) COMMANDS"

record CosmeticsTokenizer =
  input :: string
  tokens :: "Token list"
  position :: nat

definition CosmeticsTokenizer_init :: "(char \<Rightarrow> bool) \<Rightarrow> string \<Rightarrow> CosmeticsTokenizer" where
  "CosmeticsTokenizer_init isspace input_text =
     \<lparr>input = strip isspace input_text, tokens = [], position = 0\<rparr>"

definition match_command ::
  "(string \<Rightarrow> string) \<Rightarrow> CosmeticsTokenizer \<Rightarrow> Token option \<times> CosmeticsTokenizer" where
  "match_command lower self =
     (let text = lower (input self) in
      case find (startswith text) sorted_commands of
        Some cmd \<Rightarrow> (Some (Token COMMAND cmd 0), self\<lparr>position := length cmd\<rparr>)
      | None \<Rightarrow> (None, self))"

text \<open>The inner loop of the quote scanner: the index of the next quote at or after \<open>j\<close>.\<close>

function scan_close :: "string \<Rightarrow> nat \<Rightarrow> nat" where
  "scan_close text j =
     (if j < length text \<and> text ! j \<noteq> dquote then scan_close text (j + 1) else j)"
  by pat_completeness auto
termination
  by (relation "measure (\<lambda>(text, j). length text - j)") auto

declare scan_close.simps [simp del]

lemma scan_close_ge: "j \<le> scan_close s j"
proof (induction s j rule: scan_close.induct)
  case (1 s j)
  show ?case
  proof (cases "j < length s \<and> s ! j \<noteq> dquote")
    case True
    with "1" have "j + 1 \<le> scan_close s (j + 1)" by blast
    moreover from True have "scan_close s j = scan_close s (j + 1)"
      by (subst scan_close.simps) simp
    ultimately show ?thesis by simp
  next
    case False
    then have "scan_close s j = j"
      by (subst scan_close.simps) auto
    then show ?thesis by simp
  qed
qed

text \<open>
  The outer loop: \<open>pos\<close> is \<^verbatim>\<open>self.position\<close>, \<open>toks\<close> is
  \<^verbatim>\<open>self.tokens\<close>. The \<^verbatim>\<open>break\<close> of the source is the branch that returns
  \<open>toks\<close> as it stands.
\<close>

function extract_loop :: "nat \<Rightarrow> string \<Rightarrow> nat \<Rightarrow> Token list \<Rightarrow> Token list" where
  "extract_loop pos text i toks =
     (if i < length text then
        (if text ! i = dquote then
           (let j = scan_close text (i + 1) in
            if j < length text \<and> text ! j = dquote then
              extract_loop pos text (j + 1)
                (toks @ [Token STRING_LITERAL (slice text (i + 1) j) (pos + i)])
            else toks)
         else extract_loop pos text (i + 1) toks)
      else toks)"
  by pat_completeness auto
termination
proof (relation "measure (\<lambda>(pos, text, i, toks). length text - i)", goal_cases)
  case 1
  show ?case by simp
next
  case (2 pos s i toks j)
  have "i + 1 \<le> scan_close s (i + 1)" by (rule scan_close_ge)
  with 2 show ?case by auto
next
  case (3 pos s i toks)
  then show ?case by simp
qed

declare extract_loop.simps [simp del]

definition extract_string_literals ::
  "(char \<Rightarrow> bool) \<Rightarrow> CosmeticsTokenizer \<Rightarrow> CosmeticsTokenizer" where
  "extract_string_literals isspace self =
     (let text = strip isspace (drop (position self) (input self)) in
      self\<lparr>tokens := extract_loop (position self) text 0 (tokens self)\<rparr>)"

definition tokenize ::
  "(string \<Rightarrow> string) \<Rightarrow> (char \<Rightarrow> bool) \<Rightarrow> CosmeticsTokenizer \<Rightarrow>
   Token list \<times> CosmeticsTokenizer" where
  "tokenize lower isspace self0 =
     (let self1 = self0\<lparr>tokens := [], position := 0\<rparr>;
          (cmd, self2) = match_command lower self1;
          self3 = (case cmd of
                     Some c \<Rightarrow> extract_string_literals isspace (self2\<lparr>tokens := tokens self2 @ [c]\<rparr>)
                   | None \<Rightarrow> self2);
          self4 = self3\<lparr>tokens := tokens self3 @ [Token EOF [] (position self3)]\<rparr>
      in (tokens self4, self4))"

text \<open>\<^verbatim>\<open>CosmeticsTokenizer(cmd).tokenize()\<close>\<close>

definition tokenize_text :: "(string \<Rightarrow> string) \<Rightarrow> (char \<Rightarrow> bool) \<Rightarrow> string \<Rightarrow> Token list" where
  "tokenize_text lower isspace input_text =
     fst (tokenize lower isspace (CosmeticsTokenizer_init isspace input_text))"

subsection \<open>Parser\<close>

definition COMMAND_RULES :: "string \<rightharpoonup> nat \<times> nat" where
  "COMMAND_RULES =
     map_of
       [(''apply theme'', (1, 1)),
        (''add item'', (1, 1)),
        (''remove item'', (1, 1)),
        (''clear inventory'', (0, 0)),
        (''add item list'', (1, 99)),
        (''color palette'', (1, 99)),
        (''assemble cosmetic'', (0, 0)),
        (''register'', (2, 2)),
        (''login'', (1, 1)),
        (''logout'', (0, 0)),
        (''exit'', (0, 0))]"

text \<open>
  The loop of \<^verbatim>\<open>parse\<close> over \<^verbatim>\<open>self.tokens[self.i]\<close>, from the token after
  the command: it takes the values of the string literals and stops at the first other token
  or at the end of the list.
\<close>

fun collect_args :: "Token list \<Rightarrow> string list" where
  "collect_args [] = []"
| "collect_args (t # ts) =
     (if ttype t = STRING_LITERAL then tvalue t # collect_args ts else [])"

definition parse :: "Token list \<Rightarrow> error + ASTNode" where
  "parse toks =
     (case toks of
        [] \<Rightarrow> Inl (ParseError ExpectedCommand)
      | t # rest \<Rightarrow>
          if ttype t \<noteq> COMMAND then Inl (ParseError ExpectedCommand)
          else
            let cmd = tvalue t in
            (case COMMAND_RULES cmd of
               None \<Rightarrow> Inl (ParseError (UnknownCommand cmd))
             | Some (min_a, max_a) \<Rightarrow>
                 let args = collect_args rest in
                 if \<not> (min_a \<le> length args \<and> length args \<le> max_a)
                 then Inl (ParseError (WrongArity cmd min_a max_a (length args)))
                 else Inr (ASTNode cmd args)))"

subsection \<open>Domain models\<close>

record CosmeticOutfit =
  o_name :: string
  o_theme :: string
  o_items :: "string list"
  o_colors :: "string list"
  o_image :: string
  o_steps :: "string list"

datatype OutfitMatch =
  OutfitMatch (outfit: CosmeticOutfit) (missing_items: "string set") (missing_colors: "string set")

subsection \<open>Executor\<close>

text \<open>
  The state of a \<^verbatim>\<open>CosmeticsExecutor\<close>. The constructor receives the outfits
  already built by \<^verbatim>\<open>CosmeticOutfit.from_dict\<close>.
\<close>

record CosmeticsExecutor =
  outfits :: "CosmeticOutfit list"
  image_base_path :: string
  theme :: "string option"
  inventory :: "string set"
  palette :: "string list"

definition CosmeticsExecutor_init :: "CosmeticOutfit list \<Rightarrow> string \<Rightarrow> CosmeticsExecutor" where
  "CosmeticsExecutor_init cosmetics_library base =
     \<lparr>outfits = cosmetics_library, image_base_path = base,
      theme = None, inventory = {}, palette = []\<rparr>"

text \<open>
  The strings that the handlers return, one constructor for each format string of the
  source, with the values that the string is formatted from.
\<close>

datatype message =
    ThemeApplied string
  | ItemAlreadyInInventory string
  | AddedItem string
  | ItemNotInInventory string
  | RemovedItem string
  | InventoryCleared
  | AddedItems nat
  | PaletteSet "string list"
  | NoThemeSet
  | InventoryEmpty
  | NoOutfitsForTheme string
  | AssembledExact nat
  | AssembledPartial nat
  | NoMatches

text \<open>The messages that the source marks with the warning sign.\<close>

fun is_warning :: "message \<Rightarrow> bool" where
  "is_warning (ItemAlreadyInInventory _) = True"
| "is_warning (ItemNotInInventory _) = True"
| "is_warning _ = False"

definition apply_theme ::
  "(string \<Rightarrow> string) \<Rightarrow> CosmeticsExecutor \<Rightarrow> string \<Rightarrow> message \<times> CosmeticsExecutor" where
  "apply_theme lower self t = (ThemeApplied t, self\<lparr>theme := Some (lower t)\<rparr>)"

definition add_item ::
  "(string \<Rightarrow> string) \<Rightarrow> CosmeticsExecutor \<Rightarrow> string \<Rightarrow> message \<times> CosmeticsExecutor" where
  "add_item lower self item =
     (let item_l = lower item in
      if item_l \<in> inventory self then (ItemAlreadyInInventory item, self)
      else (AddedItem item, self\<lparr>inventory := insert item_l (inventory self)\<rparr>))"

definition remove_item ::
  "(string \<Rightarrow> string) \<Rightarrow> CosmeticsExecutor \<Rightarrow> string \<Rightarrow> message \<times> CosmeticsExecutor" where
  "remove_item lower self item =
     (let item_l = lower item in
      if item_l \<notin> inventory self then (ItemNotInInventory item, self)
      else (RemovedItem item, self\<lparr>inventory := inventory self - {item_l}\<rparr>))"

definition clear_inventory :: "CosmeticsExecutor \<Rightarrow> message \<times> CosmeticsExecutor" where
  "clear_inventory self = (InventoryCleared, self\<lparr>inventory := {}\<rparr>)"

text \<open>The loop of \<^verbatim>\<open>_add_item_list\<close>, on the inventory and the counter \<open>added\<close>.\<close>

fun add_item_loop ::
  "(string \<Rightarrow> string) \<Rightarrow> string list \<Rightarrow> string set \<times> nat \<Rightarrow> string set \<times> nat" where
  "add_item_loop lower [] (invt, added) = (invt, added)"
| "add_item_loop lower (it # its) (invt, added) =
     (if lower it \<notin> invt then add_item_loop lower its (insert (lower it) invt, added + 1)
      else add_item_loop lower its (invt, added))"

definition add_item_list ::
  "(string \<Rightarrow> string) \<Rightarrow> CosmeticsExecutor \<Rightarrow> string list \<Rightarrow> message \<times> CosmeticsExecutor" where
  "add_item_list lower self its =
     (let (invt, added) = add_item_loop lower its (inventory self, 0) in
      (AddedItems added, self\<lparr>inventory := invt\<rparr>))"

definition set_color_palette ::
  "(string \<Rightarrow> string) \<Rightarrow> CosmeticsExecutor \<Rightarrow> string list \<Rightarrow> message \<times> CosmeticsExecutor" where
  "set_color_palette lower self cs =
     (let self' = self\<lparr>palette := map lower cs\<rparr> in (PaletteSet (palette self'), self'))"

text \<open>
  \<^verbatim>\<open>not self.theme\<close>: the theme is \<^verbatim>\<open>None\<close> or the empty string.
\<close>

definition theme_falsy :: "CosmeticsExecutor \<Rightarrow> bool" where
  "theme_falsy self = (case theme self of None \<Rightarrow> True | Some t \<Rightarrow> t = [])"

text \<open>\<^verbatim>\<open>set(self.palette) if self.palette else None\<close>\<close>

definition palette_set :: "CosmeticsExecutor \<Rightarrow> string set option" where
  "palette_set self = (if palette self \<noteq> [] then Some (set (palette self)) else None)"

text \<open>
  The loop of \<^verbatim>\<open>_assemble_cosmetic\<close> over \<^verbatim>\<open>theme_outfits\<close>, on the two
  lists \<^verbatim>\<open>exact\<close> and \<^verbatim>\<open>near\<close>.
\<close>

fun classify ::
  "(string \<Rightarrow> string) \<Rightarrow> string set \<Rightarrow> string set option \<Rightarrow> CosmeticOutfit list \<Rightarrow>
   OutfitMatch list \<times> OutfitMatch list \<Rightarrow> OutfitMatch list \<times> OutfitMatch list" where
  "classify lower invt pal [] (exact, near) = (exact, near)"
| "classify lower invt pal (outf # rest) (exact, near) =
     (let items_set = set (map lower (o_items outf));
          colors_set = set (map lower (o_colors outf));
          missing_items = items_set - invt;
          missing_colors = (case pal of None \<Rightarrow> {} | Some p \<Rightarrow> colors_set - p)
      in if missing_items = {} \<and> missing_colors = {}
         then classify lower invt pal rest
                (exact @ [OutfitMatch outf missing_items missing_colors], near)
         else classify lower invt pal rest
                (exact, near @ [OutfitMatch outf missing_items missing_colors]))"

definition assemble_cosmetic ::
  "(string \<Rightarrow> string) \<Rightarrow> CosmeticsExecutor \<Rightarrow> message \<times> CosmeticsExecutor" where
  "assemble_cosmetic lower self =
     (if theme_falsy self then (NoThemeSet, self)
      else if inventory self = {} then (InventoryEmpty, self)
      else
        let theme_outfits = filter (\<lambda>outf. Some (lower (o_theme outf)) = theme self) (outfits self)
        in if theme_outfits = [] then (NoOutfitsForTheme (the (theme self)), self)
           else
             let (exact, near) = classify lower (inventory self) (palette_set self) theme_outfits ([], [])
             in if exact \<noteq> [] then (AssembledExact (length exact), self)
                else if near \<noteq> [] then (AssembledPartial (length near), self)
                else (NoMatches, self))"

text \<open>The loop of \<^verbatim>\<open>get_matching_outfits\<close>, on the list \<^verbatim>\<open>matches\<close>.\<close>

fun matching_loop ::
  "(string \<Rightarrow> string) \<Rightarrow> string option \<Rightarrow> string set \<Rightarrow> string set option \<Rightarrow>
   CosmeticOutfit list \<Rightarrow> CosmeticOutfit list \<Rightarrow> CosmeticOutfit list" where
  "matching_loop lower th invt pal [] matches = matches"
| "matching_loop lower th invt pal (outf # rest) matches =
     (if Some (lower (o_theme outf)) \<noteq> th then matching_loop lower th invt pal rest matches
      else
        let items_set = set (map lower (o_items outf));
            colors_set = set (map lower (o_colors outf))
        in if items_set - invt \<noteq> {} then matching_loop lower th invt pal rest matches
           else if (case pal of None \<Rightarrow> False | Some p \<Rightarrow> colors_set - p \<noteq> {})
                then matching_loop lower th invt pal rest matches
           else matching_loop lower th invt pal rest (matches @ [outf]))"

definition get_matching_outfits :: "(string \<Rightarrow> string) \<Rightarrow> CosmeticsExecutor \<Rightarrow> CosmeticOutfit list" where
  "get_matching_outfits lower self =
     (if theme_falsy self then []
      else matching_loop lower (theme self) (inventory self) (palette_set self) (outfits self) [])"

text \<open>
  \<^verbatim>\<open>execute\<close>: the chain of comparisons of the source, in its order. \<^verbatim>\<open>args[0]\<close>
  raises \<^verbatim>\<open>IndexError\<close> on an empty list, before the handler is entered. A raise
  leaves the executor as it was, so the error carries no state.
\<close>

definition arg0 :: "string list \<Rightarrow> error + string" where
  "arg0 args = (case args of [] \<Rightarrow> Inl IndexError | a # _ \<Rightarrow> Inr a)"

definition execute ::
  "(string \<Rightarrow> string) \<Rightarrow> CosmeticsExecutor \<Rightarrow> ASTNode \<Rightarrow> error + message \<times> CosmeticsExecutor" where
  "execute lower self ast =
     (let cmd = command ast; args = arguments ast in
      if cmd = ''apply theme'' then
        (case arg0 args of Inl e \<Rightarrow> Inl e | Inr a \<Rightarrow> Inr (apply_theme lower self a))
      else if cmd = ''add item'' then
        (case arg0 args of Inl e \<Rightarrow> Inl e | Inr a \<Rightarrow> Inr (add_item lower self a))
      else if cmd = ''remove item'' then
        (case arg0 args of Inl e \<Rightarrow> Inl e | Inr a \<Rightarrow> Inr (remove_item lower self a))
      else if cmd = ''clear inventory'' then Inr (clear_inventory self)
      else if cmd = ''add item list'' then Inr (add_item_list lower self args)
      else if cmd = ''color palette'' then Inr (set_color_palette lower self args)
      else if cmd = ''assemble cosmetic'' then Inr (assemble_cosmetic lower self)
      else Inl (ExecutionError cmd))"

text \<open>
  The command runner of the user interface:
  \<^verbatim>\<open>executor.execute(CosmeticsParser(CosmeticsTokenizer(cmd).tokenize()).parse())\<close>.
\<close>

definition run_command ::
  "(string \<Rightarrow> string) \<Rightarrow> (char \<Rightarrow> bool) \<Rightarrow> CosmeticsExecutor \<Rightarrow> string \<Rightarrow>
   error + message \<times> CosmeticsExecutor" where
  "run_command lower isspace self cmd =
     (case parse (tokenize_text lower isspace cmd) of
        Inl e \<Rightarrow> Inl e
      | Inr ast \<Rightarrow> execute lower self ast)"

text \<open>
  The states that an executor built on a library can be in: the state after the
  constructor, and every state that a call of \<^verbatim>\<open>execute\<close> returns in.
\<close>

inductive reachable ::
  "(string \<Rightarrow> string) \<Rightarrow> CosmeticOutfit list \<Rightarrow> string \<Rightarrow> CosmeticsExecutor \<Rightarrow> bool"
  for lower :: "string \<Rightarrow> string" and lib :: "CosmeticOutfit list" and base :: string where
  reachable_init: "reachable lower lib base (CosmeticsExecutor_init lib base)"
| reachable_step:
    "reachable lower lib base s \<Longrightarrow> execute lower s ast = Inr (msg, s') \<Longrightarrow>
     reachable lower lib base s'"

subsection \<open>Notions used in the statements\<close>

text \<open>A string literal of the command language: the text between two double quotes.\<close>

definition quoted :: "string \<Rightarrow> string" where
  "quoted s = dquote # s @ [dquote]"

text \<open>
  The text of a sequence of string literals: each pair is the text before a literal (the
  gap) and the text between its quotes.
\<close>

definition render :: "(string \<times> string) list \<Rightarrow> string" where
  "render segs = concat (map (\<lambda>(g, l). g @ quoted l) segs)"

text \<open>
  The tokens of the literals of \<open>render segs\<close>, when the text starts at the index \<open>i\<close>
  of the scanned text and \<open>pos\<close> is the position of the tokenizer.
\<close>

fun literal_tokens :: "nat \<Rightarrow> nat \<Rightarrow> (string \<times> string) list \<Rightarrow> Token list" where
  "literal_tokens pos i [] = []"
| "literal_tokens pos i ((g, l) # segs) =
     Token STRING_LITERAL l (pos + i + length g)
       # literal_tokens pos (i + length g + length l + 2) segs"

text \<open>
  The state of a session as the handlers keep it: the library and the image path of the
  constructor, a theme that is a value of \<open>lower\<close> when there is one, and a finite
  inventory and a palette whose entries are values of \<open>lower\<close>.
\<close>

definition session_inv ::
  "(string \<Rightarrow> string) \<Rightarrow> CosmeticOutfit list \<Rightarrow> string \<Rightarrow> CosmeticsExecutor \<Rightarrow> bool" where
  "session_inv lower lib base s =
     (outfits s = lib \<and> image_base_path s = base \<and>
      (case theme s of None \<Rightarrow> True | Some t \<Rightarrow> t \<in> range lower) \<and>
      finite (inventory s) \<and>
      inventory s \<subseteq> range lower \<and> set (palette s) \<subseteq> range lower)"

text \<open>Two strings are equal up to case.\<close>

definition ci_equal :: "(string \<Rightarrow> string) \<Rightarrow> string \<Rightarrow> string \<Rightarrow> bool" where
  "ci_equal lower a b = (lower a = lower b)"


text \<open>
  The outfits that the specification of \<^verbatim>\<open>get_matching_outfits\<close> names, in its words:
  the theme equals the theme of the session up to case, the lower-cased items are a subset
  of the inventory and, when the palette is not empty, the lower-cased colors are a subset
  of the palette; in the order of the catalog.
\<close>

definition matching_spec :: "(string \<Rightarrow> string) \<Rightarrow> CosmeticsExecutor \<Rightarrow> CosmeticOutfit list" where
  "matching_spec lower self =
     filter (\<lambda>outf.
        (case theme self of None \<Rightarrow> False | Some t \<Rightarrow> ci_equal lower (o_theme outf) t) \<and>
        set (map lower (o_items outf)) \<subseteq> inventory self \<and>
        (palette self \<noteq> [] \<longrightarrow> set (map lower (o_colors outf)) \<subseteq> set (palette self)))
       (outfits self)"



text \<open>
  The phrase \<open>p\<close> is a prefix of the text \<open>s\<close> up to case: the lower-cased text begins
  with \<open>p\<close>. The phrases of the vocabulary are written in lower case.
\<close>

definition ci_prefix :: "(string \<Rightarrow> string) \<Rightarrow> string \<Rightarrow> string \<Rightarrow> bool" where
  "ci_prefix lower p s = startswith (lower s) p"

subsection \<open>The builtins, outfits and states of the examples\<close>

text \<open>
  The examples are evaluated with the two builtins as they are on the characters of the
  type \<^typ>\<open>char\<close>, the code points below 256. There \<^verbatim>\<open>str.lower\<close> works character
  by character: it adds 32 to the code points of A to Z and of the capital letters from
  0xC0 to 0xDE, the multiplication sign 0xD7 apart, and leaves every other one.
\<close>

definition latin1_lower_char :: "char \<Rightarrow> char" where
  "latin1_lower_char c =
     (let n = (of_char c :: nat) in
      if (65 \<le> n \<and> n \<le> 90) \<or> (192 \<le> n \<and> n \<le> 222 \<and> n \<noteq> 215) then char_of (n + 32) else c)"

definition latin1_lower :: "string \<Rightarrow> string" where
  "latin1_lower s = map latin1_lower_char s"

text \<open>
  \<^verbatim>\<open>str.isspace\<close> holds of twelve code points below 256: tab, line feed, vertical tab,
  form feed, carriage return, the separators 0x1C to 0x1F, the space, the next line
  character 0x85 and the no-break space 0xA0.
\<close>

definition latin1_isspace :: "char \<Rightarrow> bool" where
  "latin1_isspace c =
     (c = CHR 0x09 \<or> c = CHR 0x0A \<or> c = CHR 0x0B \<or> c = CHR 0x0C \<or> c = CHR 0x0D \<or>
      c = CHR 0x1C \<or> c = CHR 0x1D \<or> c = CHR 0x1E \<or> c = CHR 0x1F \<or> c = CHR 0x20 \<or>
      c = CHR 0x85 \<or> c = CHR 0xA0)"

definition plain_outfit :: CosmeticOutfit where
  "plain_outfit = \<lparr>o_name = ''plain'', o_theme = [], o_items = [], o_colors = [],
                   o_image = [], o_steps = []\<rparr>"

definition cyber_outfit :: CosmeticOutfit where
  "cyber_outfit = \<lparr>o_name = ''Neon Runner'', o_theme = ''cyberpunk'',
                   o_items = [''jacket'', ''boots''], o_colors = [''neon blue''],
                   o_image = ''neon.png'', o_steps = []\<rparr>"

definition visor_outfit :: CosmeticOutfit where
  "visor_outfit = \<lparr>o_name = ''Visor'', o_theme = ''Cyberpunk'',
                   o_items = [''jacket'', ''visor''], o_colors = [],
                   o_image = ''visor.png'', o_steps = []\<rparr>"

definition cyber_state :: "CosmeticOutfit list \<Rightarrow> string set \<Rightarrow> CosmeticsExecutor" where
  "cyber_state lib invt = \<lparr>outfits = lib, image_base_path = [], theme = Some ''cyberpunk'',
                           inventory = invt, palette = [''neon blue'']\<rparr>"


text \<open>The tokenizer after the command phrase of \<open>add item list "a" "b c\<close>.\<close>

definition open_quote_tokenizer :: CosmeticsTokenizer where
  "open_quote_tokenizer =
     \<lparr>input = ''add item list '' @ quoted ''a'' @ '' '' @ dquote # ''b c'',
      tokens = [Token COMMAND ''add item list'' 0], position = 13\<rparr>"

section \<open>Properties\<close>

subsection \<open>Evaluation of the builtins of the examples\<close>

lemmas lower_eval = latin1_lower_def latin1_lower_char_def char_of_def bit_0

lemma latin1_lower_char_idem: "latin1_lower_char (latin1_lower_char c) = latin1_lower_char c"
  by (simp add: latin1_lower_char_def Let_def)

lemma latin1_lower_idem: "\<forall>x. latin1_lower (latin1_lower x) = latin1_lower x"
  by (simp add: latin1_lower_def latin1_lower_char_idem)

lemma latin1_dquote: "\<not> latin1_isspace dquote"
  by (simp add: latin1_isspace_def dquote_def)

subsection \<open>Parser: the arity bound\<close>

lemma collect_args_literals:
  "collect_args (map (\<lambda>(v, q). Token STRING_LITERAL v q) lits @ Token EOF e q' # rest) =
     map fst lits"
  by (induction lits) (auto split: prod.splits)

lemma rules_register: "COMMAND_RULES ''register'' = Some (2, 2)"
  by (simp add: COMMAND_RULES_def)

text \<open>
  Claim C3. Let \<open>c\<close> be a command of the arity table with the bound \<open>(mn, mx)\<close>. On
  the Command token of \<open>c\<close>, followed by \<open>k\<close> string literal tokens (of any values and
  positions) and an end token, \<open>parse\<close> returns the record of \<open>c\<close> and the \<open>k\<close> values
  in their order when \<open>mn \<le> k \<le> mx\<close>, and raises a \<open>ParseError\<close> for every other
  \<open>k\<close>.
\<close>

theorem parse_arity:
  assumes "COMMAND_RULES c = Some (mn, mx)"
  shows "parse (Token COMMAND c p # map (\<lambda>(v, q). Token STRING_LITERAL v q) lits
                  @ [Token EOF e q']) =
     (if mn \<le> length lits \<and> length lits \<le> mx then Inr (ASTNode c (map fst lits))
      else Inl (ParseError (WrongArity c mn mx (length lits))))"
  using assms by (simp add: parse_def collect_args_literals)

text \<open>
  The bound of \<open>register\<close> is \<open>(2, 2)\<close>: with one argument the parse fails, with two
  it succeeds.
\<close>

theorem parse_arity_witness:
  "COMMAND_RULES ''register'' = Some (2, 2) \<and>
   parse [Token COMMAND ''register'' 0, Token STRING_LITERAL ''user@example.com'' 9,
          Token EOF [] 8] =
     Inl (ParseError (WrongArity ''register'' 2 2 1)) \<and>
   parse [Token COMMAND ''register'' 0, Token STRING_LITERAL ''user@example.com'' 9,
          Token STRING_LITERAL ''pw'' 28, Token EOF [] 8] =
     Inr (ASTNode ''register'' [''user@example.com'', ''pw''])"
  using parse_arity [OF rules_register, of 0 "[(''user@example.com'', 9)]" "[]" 8]
        parse_arity [OF rules_register, of 0 "[(''user@example.com'', 9), (''pw'', 28)]" "[]" 8]
        rules_register
  by simp

subsection \<open>Executor: which commands raise\<close>

lemma rules_cases:
  assumes "COMMAND_RULES c = Some (mn, mx)"
  shows "(c = ''apply theme'' \<and> mn = 1 \<and> mx = 1) \<or> (c = ''add item'' \<and> mn = 1 \<and> mx = 1) \<or>
         (c = ''remove item'' \<and> mn = 1 \<and> mx = 1) \<or>
         (c = ''clear inventory'' \<and> mn = 0 \<and> mx = 0) \<or>
         (c = ''add item list'' \<and> mn = 1 \<and> mx = 99) \<or>
         (c = ''color palette'' \<and> mn = 1 \<and> mx = 99) \<or>
         (c = ''assemble cosmetic'' \<and> mn = 0 \<and> mx = 0) \<or>
         (c = ''register'' \<and> mn = 2 \<and> mx = 2) \<or>
         (c = ''login'' \<and> mn = 1 \<and> mx = 1) \<or> (c = ''logout'' \<and> mn = 0 \<and> mx = 0) \<or>
         (c = ''exit'' \<and> mn = 0 \<and> mx = 0)"
  using assms unfolding COMMAND_RULES_def
  by (simp split: if_splits)

lemma ex_apply_theme:
  "args \<noteq> [] \<Longrightarrow> \<exists>m s'. execute lower s (ASTNode ''apply theme'' args) = Inr (m, s')"
  by (cases args) (simp_all add: execute_def arg0_def apply_theme_def)

lemma ex_add_item:
  "args \<noteq> [] \<Longrightarrow> \<exists>m s'. execute lower s (ASTNode ''add item'' args) = Inr (m, s')"
  by (cases args) (simp_all add: execute_def arg0_def add_item_def Let_def)

lemma ex_remove_item:
  "args \<noteq> [] \<Longrightarrow> \<exists>m s'. execute lower s (ASTNode ''remove item'' args) = Inr (m, s')"
  by (cases args) (simp_all add: execute_def arg0_def remove_item_def Let_def)

lemma ex_clear: "\<exists>m s'. execute lower s (ASTNode ''clear inventory'' args) = Inr (m, s')"
  by (simp add: execute_def clear_inventory_def)

lemma ex_add_list: "\<exists>m s'. execute lower s (ASTNode ''add item list'' args) = Inr (m, s')"
  by (simp add: execute_def add_item_list_def split: prod.splits)

lemma ex_palette: "\<exists>m s'. execute lower s (ASTNode ''color palette'' args) = Inr (m, s')"
  by (simp add: execute_def set_color_palette_def Let_def)

lemma ex_assemble: "\<exists>m s'. execute lower s (ASTNode ''assemble cosmetic'' args) = Inr (m, s')"
  by (cases "assemble_cosmetic lower s") (simp add: execute_def)

lemma ex_unknown:
  "c \<in> {''register'', ''login'', ''logout'', ''exit''} \<Longrightarrow>
   execute lower s (ASTNode c args) = Inl (ExecutionError c)"
  by (auto simp add: execute_def)

lemma rules_login: "COMMAND_RULES ''login'' = Some (1, 1)"
  by (simp add: COMMAND_RULES_def)

lemma rules_add_item: "COMMAND_RULES ''add item'' = Some (1, 1)"
  by (simp add: COMMAND_RULES_def)

lemma tok_register:
  "tokenize_text latin1_lower latin1_isspace (''register '' @ quoted ''a'' @ '' '' @ quoted ''b'') =
     [Token COMMAND ''register'' 0, Token STRING_LITERAL ''a'' 8,
      Token STRING_LITERAL ''b'' 12, Token EOF [] 8]"
  by code_simp

text \<open>
  Claim C1, as it stands, fails: the command line \<open>register "a" "b"\<close> is tokenized and
  parsed to a record that the arity table accepts, and \<open>execute\<close> raises
  \<open>ExecutionError\<close> on that record.
\<close>

theorem validated_command_raises_counterexample:
  "parse (tokenize_text latin1_lower latin1_isspace
            (''register '' @ quoted ''a'' @ '' '' @ quoted ''b'')) =
     Inr (ASTNode ''register'' [''a'', ''b'']) \<and>
   COMMAND_RULES ''register'' = Some (2, 2) \<and>
   execute latin1_lower (CosmeticsExecutor_init [] ''cosmetics_images'')
     (ASTNode ''register'' [''a'', ''b'']) =
     Inl (ExecutionError ''register'')"
  unfolding tok_register by (simp add: parse_def rules_register execute_def)

text \<open>
  Claim C1, amended. For a record whose command is in the arity table and whose number of
  arguments is within the bound of the command, \<open>execute\<close> raises \<open>ExecutionError\<close>
  when the command is one of \<open>register\<close>, \<open>login\<close>, \<open>logout\<close> and \<open>exit\<close>, which
  the parser accepts and the executor does not dispatch; for the seven other commands it
  returns a message and a state, and raises nothing.
\<close>

theorem execute_error_validated:
  assumes "COMMAND_RULES c = Some (mn, mx)" and "mn \<le> length args" and "length args \<le> mx"
  shows "(if c \<in> {''register'', ''login'', ''logout'', ''exit''}
          then execute lower s (ASTNode c args) = Inl (ExecutionError c)
          else \<exists>m s'. execute lower s (ASTNode c args) = Inr (m, s'))"
proof (cases "c \<in> {''register'', ''login'', ''logout'', ''exit''}")
  case True
  then show ?thesis using ex_unknown [of c lower s args] by simp
next
  case False
  have ne: "mn = 1 \<Longrightarrow> args \<noteq> []" using assms(2) by auto
  from rules_cases [OF assms(1)] False
  have "\<exists>m s'. execute lower s (ASTNode c args) = Inr (m, s')"
    apply (elim disjE conjE)
    subgoal using ne by (simp add: ex_apply_theme)
    subgoal using ne by (simp add: ex_add_item)
    subgoal using ne by (simp add: ex_remove_item)
    subgoal by (simp add: ex_clear)
    subgoal by (simp add: ex_add_list)
    subgoal by (simp add: ex_palette)
    subgoal by (simp add: ex_assemble)
    subgoal by simp
    subgoal by simp
    subgoal by simp
    subgoal by simp
    done
  with False show ?thesis by simp
qed

theorem execute_error_validated_witness:
  "COMMAND_RULES ''login'' = Some (1, 1) \<and>
   execute latin1_lower (CosmeticsExecutor_init [] ''cosmetics_images'')
     (ASTNode ''login'' [''a@b.c'']) = Inl (ExecutionError ''login'') \<and>
   COMMAND_RULES ''add item'' = Some (1, 1) \<and>
   (\<exists>m s'. execute latin1_lower (CosmeticsExecutor_init [] ''cosmetics_images'')
              (ASTNode ''add item'' [''Jacket'']) = Inr (m, s'))"
  using execute_error_validated [OF rules_login, of "[''a@b.c'']" latin1_lower
          "CosmeticsExecutor_init [] ''cosmetics_images''"]
        execute_error_validated [OF rules_add_item, of "[''Jacket'']" latin1_lower
          "CosmeticsExecutor_init [] ''cosmetics_images''"]
        rules_login rules_add_item
  by simp

subsection \<open>Executor: add item\<close>

lemma lower_Jacket: "latin1_lower ''jacket'' = latin1_lower ''Jacket''"
  by (simp add: lower_eval)

lemma lower_E_acute: "latin1_lower [CHR 0xE9] = latin1_lower [CHR 0xC9]"
  by (simp add: lower_eval)

text \<open>
  Claim C7. Let \<open>i\<close> and \<open>i'\<close> be two casings of one item: \<open>lower\<close> sends them to one
  text. In every state, the first \<open>add item\<close> returns in the state whose inventory is the
  former one with \<open>lower i\<close> inserted, every other field as it was; the second
  \<open>add item\<close> returns the warning that the item is already in the inventory, and leaves
  that state as it is. This holds for every function \<open>lower\<close>.
\<close>

theorem add_item_idempotent:
  assumes "lower i' = lower i"
  shows "\<exists>m1 s1.
           execute lower s (ASTNode ''add item'' [i]) = Inr (m1, s1) \<and>
           s1 = s\<lparr>inventory := insert (lower i) (inventory s)\<rparr> \<and>
           execute lower s1 (ASTNode ''add item'' [i']) = Inr (ItemAlreadyInInventory i', s1) \<and>
           is_warning (ItemAlreadyInInventory i')"
  using assms by (simp add: execute_def arg0_def add_item_def Let_def insert_absorb)

text \<open>
  \<open>add item "Jacket"\<close> and then \<open>add item "jacket"\<close> on a new executor: the inventory
  holds \<open>jacket\<close> only. The same with the capital E with an acute accent, 0xC9, and the
  small one, 0xE9: the inventory holds the small one only.
\<close>

theorem add_item_idempotent_witness:
  "latin1_lower ''jacket'' = latin1_lower ''Jacket'' \<and>
   (\<exists>m1 s1.
      execute latin1_lower (CosmeticsExecutor_init [] ''cosmetics_images'')
        (ASTNode ''add item'' [''Jacket'']) = Inr (m1, s1) \<and>
      inventory s1 = {''jacket''} \<and> card (inventory s1) = 1 \<and>
      execute latin1_lower s1 (ASTNode ''add item'' [''jacket'']) =
        Inr (ItemAlreadyInInventory ''jacket'', s1)) \<and>
   latin1_lower [CHR 0xE9] = latin1_lower [CHR 0xC9] \<and>
   (\<exists>m1 s1.
      execute latin1_lower (CosmeticsExecutor_init [] ''cosmetics_images'')
        (ASTNode ''add item'' [[CHR 0xC9]]) = Inr (m1, s1) \<and>
      inventory s1 = {[CHR 0xE9]} \<and>
      execute latin1_lower s1 (ASTNode ''add item'' [[CHR 0xE9]]) =
        Inr (ItemAlreadyInInventory [CHR 0xE9], s1))"
  using add_item_idempotent [where lower = latin1_lower and i = "''Jacket''" and i' = "''jacket''"
          and s = "CosmeticsExecutor_init [] ''cosmetics_images''", OF lower_Jacket]
        add_item_idempotent [where lower = latin1_lower and i = "[CHR 0xC9]" and i' = "[CHR 0xE9]"
          and s = "CosmeticsExecutor_init [] ''cosmetics_images''", OF lower_E_acute]
  by (auto simp add: CosmeticsExecutor_init_def lower_eval)

subsection \<open>Executor: assemble cosmetic changes nothing\<close>

text \<open>
  Claim C9. \<open>execute\<close> on \<open>assemble cosmetic\<close> raises nothing and returns the state it
  was called in, on every branch. Without a theme the message is that no theme is set;
  with a theme and an empty inventory, that the inventory is empty; with a theme, an
  inventory and no outfit of the theme, that no outfit is available for the theme.
\<close>

theorem assemble_cosmetic_frame:
  "execute lower s (ASTNode ''assemble cosmetic'' args) = Inr (assemble_cosmetic lower s) \<and>
   snd (assemble_cosmetic lower s) = s \<and>
   (theme_falsy s \<longrightarrow> fst (assemble_cosmetic lower s) = NoThemeSet) \<and>
   (\<not> theme_falsy s \<and> inventory s = {} \<longrightarrow> fst (assemble_cosmetic lower s) = InventoryEmpty) \<and>
   (\<not> theme_falsy s \<and> inventory s \<noteq> {} \<and>
    (\<forall>outf \<in> set (outfits s). Some (lower (o_theme outf)) \<noteq> theme s) \<longrightarrow>
      fst (assemble_cosmetic lower s) = NoOutfitsForTheme (the (theme s)))"
proof -
  have 1: "execute lower s (ASTNode ''assemble cosmetic'' args) = Inr (assemble_cosmetic lower s)"
    by (simp add: execute_def)
  have 2: "snd (assemble_cosmetic lower s) = s"
    by (simp add: assemble_cosmetic_def Let_def split: prod.splits)
  have 3: "theme_falsy s \<longrightarrow> fst (assemble_cosmetic lower s) = NoThemeSet"
    by (simp add: assemble_cosmetic_def)
  have 4: "\<not> theme_falsy s \<and> inventory s = {} \<longrightarrow>
      fst (assemble_cosmetic lower s) = InventoryEmpty"
    by (simp add: assemble_cosmetic_def)
  have 5: "\<not> theme_falsy s \<and> inventory s \<noteq> {} \<and>
    (\<forall>outf \<in> set (outfits s). Some (lower (o_theme outf)) \<noteq> theme s) \<longrightarrow>
      fst (assemble_cosmetic lower s) = NoOutfitsForTheme (the (theme s))"
    by (simp add: assemble_cosmetic_def Let_def filter_empty_conv)
  from 1 2 3 4 5 show ?thesis by blast
qed

theorem assemble_cosmetic_frame_witness:
  "theme_falsy (CosmeticsExecutor_init [] ''cosmetics_images'') \<and>
   execute latin1_lower (CosmeticsExecutor_init [] ''cosmetics_images'')
     (ASTNode ''assemble cosmetic'' []) =
     Inr (NoThemeSet, CosmeticsExecutor_init [] ''cosmetics_images'') \<and>
   \<not> theme_falsy \<lparr>outfits = [], image_base_path = [], theme = Some ''goth'',
                  inventory = {''boots''}, palette = []\<rparr> \<and>
   execute latin1_lower \<lparr>outfits = [], image_base_path = [], theme = Some ''goth'',
            inventory = {''boots''}, palette = []\<rparr> (ASTNode ''assemble cosmetic'' []) =
     Inr (NoOutfitsForTheme ''goth'',
          \<lparr>outfits = [], image_base_path = [], theme = Some ''goth'',
           inventory = {''boots''}, palette = []\<rparr>)"
proof -
  have a: "theme_falsy (CosmeticsExecutor_init [] ''cosmetics_images'')"
    by (simp add: theme_falsy_def CosmeticsExecutor_init_def)
  have b: "\<not> theme_falsy \<lparr>outfits = [], image_base_path = [], theme = Some ''goth'',
                  inventory = {''boots''}, palette = []\<rparr>"
    by (simp add: theme_falsy_def)
  show ?thesis
    using a b
      assemble_cosmetic_frame [of latin1_lower "CosmeticsExecutor_init [] ''cosmetics_images''" "[]"]
      assemble_cosmetic_frame [of latin1_lower "\<lparr>outfits = [], image_base_path = [],
                  theme = Some ''goth'', inventory = {''boots''}, palette = []\<rparr>" "[]"]
    by (simp add: prod_eq_iff)
qed

subsection \<open>Executor: the session invariant\<close>

lemma add_item_loop_inv:
  "finite invt \<Longrightarrow> invt \<subseteq> range lower \<Longrightarrow>
   finite (fst (add_item_loop lower its (invt, n))) \<and>
   fst (add_item_loop lower its (invt, n)) \<subseteq> range lower"
proof (induction its arbitrary: invt n)
  case Nil
  then show ?case by simp
next
  case (Cons a its)
  show ?case
  proof (cases "lower a \<in> invt")
    case True
    then show ?thesis using Cons.IH [OF Cons.prems] by simp
  next
    case False
    have "finite (insert (lower a) invt)" and "insert (lower a) invt \<subseteq> range lower"
      using Cons.prems by auto
    from Cons.IH [OF this] False show ?thesis by simp
  qed
qed

lemma execute_preserves_inv:
  assumes "session_inv lower lib base s" and "execute lower s ast = Inr (m, s')"
  shows "session_inv lower lib base s'"
proof -
  let ?c = "command ast" and ?a = "arguments ast"
  consider (t1) "?c = ''apply theme''" | (t2) "?c \<noteq> ''apply theme''" "?c = ''add item''"
    | (t3) "?c \<noteq> ''apply theme''" "?c \<noteq> ''add item''" "?c = ''remove item''"
    | (t4) "?c = ''clear inventory''" | (t5) "?c = ''add item list''" | (t6) "?c = ''color palette''"
    | (t7) "?c = ''assemble cosmetic''"
    | (t8) "?c \<notin> {''apply theme'', ''add item'', ''remove item'', ''clear inventory'', ''add item list'',
         ''color palette'', ''assemble cosmetic''}"
    by auto
  then show ?thesis
  proof cases
    case t1 with assms show ?thesis
      by (auto simp add: execute_def arg0_def apply_theme_def session_inv_def split: list.splits)
  next
    case t2 with assms show ?thesis
      by (auto simp add: execute_def arg0_def add_item_def Let_def session_inv_def
            split: list.splits if_splits)
  next
    case t3 with assms show ?thesis
      by (auto simp add: execute_def arg0_def remove_item_def Let_def session_inv_def
            split: list.splits if_splits)
  next
    case t4 with assms show ?thesis
      by (auto simp add: execute_def clear_inventory_def session_inv_def)
  next
    case t5
    obtain i n where l: "add_item_loop lower ?a (inventory s, 0) = (i, n)"
      by (cases "add_item_loop lower ?a (inventory s, 0)")
    from assms(1) have "finite (inventory s)" "inventory s \<subseteq> range lower"
      by (simp_all add: session_inv_def)
    from add_item_loop_inv [OF this, of ?a 0] l have "finite i" "i \<subseteq> range lower" by simp_all
    with t5 assms l show ?thesis
      by (auto simp add: execute_def add_item_list_def session_inv_def)
  next
    case t6 with assms show ?thesis
      by (auto simp add: execute_def set_color_palette_def Let_def session_inv_def)
  next
    case t7
    have "snd (assemble_cosmetic lower s) = s"
      by (simp add: assemble_cosmetic_def Let_def split: prod.splits)
    with t7 assms show ?thesis
      by (auto simp add: execute_def)
  next
    case t8 with assms show ?thesis
      by (simp add: execute_def)
  qed
qed

lemma reachable_inv: "reachable lower lib base s \<Longrightarrow> session_inv lower lib base s"
proof (induction rule: reachable.induct)
  case reachable_init
  show ?case by (simp add: session_inv_def CosmeticsExecutor_init_def)
next
  case (reachable_step s ast msg s')
  then show ?case using execute_preserves_inv by blast
qed

lemma range_fixed:
  assumes "\<forall>x. lower (lower x) = lower x" and "e \<in> range lower"
  shows "lower e = e"
  using assms by auto

lemma step_theme:
  "execute latin1_lower (CosmeticsExecutor_init lib []) (ASTNode ''apply theme'' [''Cyberpunk'']) =
     Inr (ThemeApplied ''Cyberpunk'',
          \<lparr>outfits = lib, image_base_path = [], theme = Some ''cyberpunk'',
           inventory = {}, palette = []\<rparr>)"
  by (simp add: execute_def arg0_def apply_theme_def CosmeticsExecutor_init_def lower_eval)

lemma step_palette:
  "execute latin1_lower \<lparr>outfits = lib, image_base_path = [], theme = Some ''cyberpunk'',
            inventory = {}, palette = []\<rparr> (ASTNode ''color palette'' [''Neon Blue'']) =
     Inr (PaletteSet [''neon blue''], cyber_state lib {})"
  by (simp add: execute_def set_color_palette_def Let_def cyber_state_def lower_eval)

lemma step_items:
  "execute latin1_lower (cyber_state lib {})
     (ASTNode ''add item list'' [''Jacket'', ''boots'', ''JACKET'']) =
     Inr (AddedItems 2, cyber_state lib {''boots'', ''jacket''})"
  by (simp add: execute_def add_item_list_def cyber_state_def lower_eval)

lemma step_item:
  "execute latin1_lower (cyber_state lib {}) (ASTNode ''add item'' [''Jacket'']) =
     Inr (AddedItem ''Jacket'', cyber_state lib {''jacket''})"
  by (simp add: execute_def arg0_def add_item_def cyber_state_def lower_eval)

lemma reach_cyber_empty: "reachable latin1_lower lib [] (cyber_state lib {})"
  using reachable_step [OF reachable_step [OF reachable_init step_theme] step_palette] .

lemma reach_cyber_full: "reachable latin1_lower lib [] (cyber_state lib {''boots'', ''jacket''})"
  using reachable_step [OF reach_cyber_empty step_items] .

lemma reach_cyber_jacket: "reachable latin1_lower lib [] (cyber_state lib {''jacket''})"
  using reachable_step [OF reach_cyber_empty step_item] .

lemma step_dup:
  "execute latin1_lower (CosmeticsExecutor_init [] []) (ASTNode ''color palette'' [''Red'', ''red'']) =
     Inr (PaletteSet [''red'', ''red''],
          \<lparr>outfits = [], image_base_path = [], theme = None, inventory = {},
           palette = [''red'', ''red'']\<rparr>)"
  by (simp add: execute_def set_color_palette_def Let_def CosmeticsExecutor_init_def lower_eval)

lemma lower_Red: "map latin1_lower [''Red'', ''red''] = [''red'', ''red'']"
  by (simp add: lower_eval)

lemma lower_fixed_examples:
  "latin1_lower ''boots'' = ''boots''" "latin1_lower ''jacket'' = ''jacket''"
  "latin1_lower ''neon blue'' = ''neon blue''"
  by (simp_all add: lower_eval)

text \<open>
  Claim C2, as it stands, fails for the palette: \<open>color palette "Red" "red"\<close> on a new
  executor returns in a state whose palette holds \<open>red\<close> twice.
\<close>

theorem palette_duplicate_counterexample:
  "reachable latin1_lower [] []
     \<lparr>outfits = [], image_base_path = [], theme = None, inventory = {},
      palette = [''red'', ''red'']\<rparr> \<and>
   \<not> distinct (palette \<lparr>outfits = [], image_base_path = [], theme = None, inventory = {},
                         palette = [''red'', ''red'']\<rparr>)"
  using reachable_step [OF reachable_init step_dup] by simp

text \<open>
  Claim C2, amended. In every state that a sequence of executed commands reaches from a new
  executor, every entry of the inventory and every entry of the palette is lower-cased: it
  is a value of \<open>lower\<close>, and \<open>lower\<close> leaves it as it is when lower-casing twice is
  lower-casing once, as it is for \<^verbatim>\<open>str.lower\<close>. The inventory is a finite set, and a
  set holds no entry twice. The palette can hold an entry twice: in every such state
  \<open>color palette\<close> sets the palette to the list of its arguments, each lower-cased, in
  their order and with their repetitions.
\<close>

theorem reachable_lower_cased:
  assumes "reachable lower lib base s"
  shows "(\<forall>e \<in> inventory s. \<exists>x. e = lower x) \<and> (\<forall>e \<in> set (palette s). \<exists>x. e = lower x) \<and>
         ((\<forall>x. lower (lower x) = lower x) \<longrightarrow>
            (\<forall>e \<in> inventory s. lower e = e) \<and> (\<forall>e \<in> set (palette s). lower e = e)) \<and>
         finite (inventory s) \<and>
         (\<forall>cs. execute lower s (ASTNode ''color palette'' cs) =
                 Inr (PaletteSet (map lower cs), s\<lparr>palette := map lower cs\<rparr>))"
proof -
  from reachable_inv [OF assms]
  have i: "inventory s \<subseteq> range lower" and p: "set (palette s) \<subseteq> range lower"
    and f: "finite (inventory s)"
    by (simp_all add: session_inv_def)
  have 1: "\<forall>e \<in> inventory s. \<exists>x. e = lower x" using i by auto
  have 2: "\<forall>e \<in> set (palette s). \<exists>x. e = lower x" using p by auto
  have 3: "(\<forall>x. lower (lower x) = lower x) \<longrightarrow>
            (\<forall>e \<in> inventory s. lower e = e) \<and> (\<forall>e \<in> set (palette s). lower e = e)"
    using i p range_fixed [of lower] by blast
  have 4: "\<forall>cs. execute lower s (ASTNode ''color palette'' cs) =
                 Inr (PaletteSet (map lower cs), s\<lparr>palette := map lower cs\<rparr>)"
    by (simp add: execute_def set_color_palette_def Let_def)
  from 1 2 3 f 4 show ?thesis by blast
qed

text \<open>
  After \<open>apply theme "Cyberpunk"\<close>, \<open>color palette "Neon Blue"\<close> and
  \<open>add item list "Jacket" "boots" "JACKET"\<close> the inventory holds \<open>boots\<close> and
  \<open>jacket\<close> and the palette holds \<open>neon blue\<close>; \<open>color palette "Red" "red"\<close> then
  sets the palette to \<open>red\<close>, \<open>red\<close>.
\<close>

theorem reachable_lower_cased_witness:
  "reachable latin1_lower [] [] (cyber_state [] {''boots'', ''jacket''}) \<and>
   (\<forall>x. latin1_lower (latin1_lower x) = latin1_lower x) \<and>
   inventory (cyber_state [] {''boots'', ''jacket''}) = {''boots'', ''jacket''} \<and>
   palette (cyber_state [] {''boots'', ''jacket''}) = [''neon blue''] \<and>
   latin1_lower ''boots'' = ''boots'' \<and> latin1_lower ''jacket'' = ''jacket'' \<and>
   latin1_lower ''neon blue'' = ''neon blue'' \<and>
   execute latin1_lower (cyber_state [] {''boots'', ''jacket''})
     (ASTNode ''color palette'' [''Red'', ''red'']) =
     Inr (PaletteSet [''red'', ''red''],
          (cyber_state [] {''boots'', ''jacket''})\<lparr>palette := [''red'', ''red'']\<rparr>)"
  using reachable_lower_cased [OF reach_cyber_full [of "[]"]] reach_cyber_full [of "[]"]
        latin1_lower_idem lower_Red
  by (simp add: cyber_state_def lower_fixed_examples)

subsection \<open>Executor: the query of the matching outfits\<close>

lemma matching_loop_filter:
  "matching_loop lower th invt pal os acc =
     acc @ filter (\<lambda>outf. Some (lower (o_theme outf)) = th \<and>
                     set (map lower (o_items outf)) - invt = {} \<and>
                     (case pal of None \<Rightarrow> True | Some p \<Rightarrow> set (map lower (o_colors outf)) - p = {})) os"
  by (induction os arbitrary: acc) (auto simp add: Let_def split: option.splits)

lemma lower_Nil: "latin1_lower [] = []"
  by (simp add: latin1_lower_def)


lemma reach_empty_theme:
  "reachable latin1_lower [plain_outfit] []
     \<lparr>outfits = [plain_outfit], image_base_path = [], theme = Some [],
      inventory = {}, palette = []\<rparr>"
proof -
  have "execute latin1_lower (CosmeticsExecutor_init [plain_outfit] []) (ASTNode ''apply theme'' [[]]) =
          Inr (ThemeApplied [], \<lparr>outfits = [plain_outfit], image_base_path = [], theme = Some [],
                                inventory = {}, palette = []\<rparr>)"
    by (simp add: execute_def arg0_def apply_theme_def CosmeticsExecutor_init_def lower_Nil)
  then show ?thesis using reachable_init reachable_step by blast
qed


text \<open>
  Claim C6, as it stands, fails when the theme of the session is the empty string, which
  \<open>apply theme ""\<close> sets: an outfit whose theme is empty and whose items are in the
  inventory satisfies the three conditions, and \<open>get_matching_outfits\<close> returns the
  empty list.
\<close>

theorem empty_theme_matching_counterexample:
  "reachable latin1_lower [plain_outfit] []
     \<lparr>outfits = [plain_outfit], image_base_path = [], theme = Some [],
      inventory = {}, palette = []\<rparr> \<and>
   get_matching_outfits latin1_lower
     \<lparr>outfits = [plain_outfit], image_base_path = [], theme = Some [],
      inventory = {}, palette = []\<rparr> = [] \<and>
   matching_spec latin1_lower
     \<lparr>outfits = [plain_outfit], image_base_path = [], theme = Some [],
      inventory = {}, palette = []\<rparr> = [plain_outfit]"
  using reach_empty_theme
  by (simp add: get_matching_outfits_def theme_falsy_def matching_spec_def ci_equal_def
        plain_outfit_def lower_Nil)

text \<open>
  Claim C6, amended. Let lower-casing twice be lower-casing once, as it is for
  \<^verbatim>\<open>str.lower\<close>. In every reachable state, \<open>get_matching_outfits\<close> returns the empty
  list when the theme is not set or is the empty string; otherwise it returns, in the order
  of the catalog, exactly the outfits whose theme equals the theme of the session up to
  case, whose lower-cased items are a subset of the inventory and, only when the palette is
  not empty, whose lower-cased colors are a subset of the palette.
\<close>

theorem get_matching_outfits_spec:
  assumes "reachable lower lib base s" and "\<forall>x. lower (lower x) = lower x"
  shows "get_matching_outfits lower s = (if theme_falsy s then [] else matching_spec lower s)"
proof (cases "theme_falsy s")
  case True
  then show ?thesis by (simp add: get_matching_outfits_def)
next
  case False
  then obtain t where t: "theme s = Some t" by (auto simp add: theme_falsy_def split: option.splits)
  from reachable_inv [OF assms(1)] t have "t \<in> range lower" by (simp add: session_inv_def)
  with assms(2) have lt: "lower t = t" by (rule range_fixed)
  have "matching_loop lower (theme s) (inventory s) (palette_set s) (outfits s) [] =
          matching_spec lower s"
    unfolding matching_loop_filter matching_spec_def append_Nil
    by (rule filter_cong) (auto simp add: t lt ci_equal_def palette_set_def)
  with False show ?thesis by (simp add: get_matching_outfits_def)
qed

text \<open>
  The catalog holds an outfit of the theme \<open>cyberpunk\<close> with the items \<open>jacket\<close>,
  \<open>boots\<close> and the color \<open>neon blue\<close>, and one of the theme \<open>Cyberpunk\<close> with the
  items \<open>jacket\<close>, \<open>visor\<close>. With the inventory \<open>boots\<close>, \<open>jacket\<close> the first is
  returned; with \<open>jacket\<close> alone, none.
\<close>

theorem get_matching_outfits_spec_witness:
  "reachable latin1_lower [cyber_outfit, visor_outfit] []
     (cyber_state [cyber_outfit, visor_outfit] {''boots'', ''jacket''}) \<and>
   (\<forall>x. latin1_lower (latin1_lower x) = latin1_lower x) \<and>
   get_matching_outfits latin1_lower
     (cyber_state [cyber_outfit, visor_outfit] {''boots'', ''jacket''}) = [cyber_outfit] \<and>
   reachable latin1_lower [cyber_outfit, visor_outfit] []
     (cyber_state [cyber_outfit, visor_outfit] {''jacket''}) \<and>
   get_matching_outfits latin1_lower (cyber_state [cyber_outfit, visor_outfit] {''jacket''}) = []"
proof -
  have full: "get_matching_outfits latin1_lower
      (cyber_state [cyber_outfit, visor_outfit] {''boots'', ''jacket''}) = [cyber_outfit]"
    unfolding get_matching_outfits_spec
            [OF reach_cyber_full [of "[cyber_outfit, visor_outfit]"] latin1_lower_idem]
    by (simp add: matching_spec_def theme_falsy_def cyber_state_def cyber_outfit_def
          visor_outfit_def ci_equal_def lower_eval)
  have jacket: "get_matching_outfits latin1_lower
      (cyber_state [cyber_outfit, visor_outfit] {''jacket''}) = []"
    unfolding get_matching_outfits_spec
            [OF reach_cyber_jacket [of "[cyber_outfit, visor_outfit]"] latin1_lower_idem]
    by (simp add: matching_spec_def theme_falsy_def cyber_state_def cyber_outfit_def
          visor_outfit_def ci_equal_def lower_eval)
  from full jacket reach_cyber_full [of "[cyber_outfit, visor_outfit]"]
    reach_cyber_jacket [of "[cyber_outfit, visor_outfit]"] latin1_lower_idem
  show ?thesis by (simp only: simp_thms)
qed

subsection \<open>Executor: exact matches before near matches\<close>











subsection \<open>Tokenizer: the longest command phrase\<close>

lemma tokenize_text_unfold:
  "tokenize_text lower isspace inp =
     (case find (startswith (lower (strip isspace inp))) sorted_commands of
        None \<Rightarrow> [Token EOF [] 0]
      | Some c \<Rightarrow>
          extract_loop (length c) (strip isspace (drop (length c) (strip isspace inp))) 0
            [Token COMMAND c 0]
          @ [Token EOF [] (length c)])"
  by (simp add: tokenize_text_def tokenize_def CosmeticsTokenizer_init_def match_command_def
        extract_string_literals_def Let_def split: option.splits)

lemma extract_loop_appends:
  "\<exists>lits. extract_loop pos s i toks = toks @ lits \<and> (\<forall>t \<in> set lits. ttype t = STRING_LITERAL)"
proof (induction pos s i toks rule: extract_loop.induct)
  case (1 pos s i toks)
  show ?case
  proof (cases "i < length s")
    case False
    then have "extract_loop pos s i toks = toks" by (subst extract_loop.simps) simp
    then show ?thesis by simp
  next
    case in_range: True
    show ?thesis
    proof (cases "s ! i = dquote")
      case False
      with in_range have "extract_loop pos s i toks = extract_loop pos s (i + 1) toks"
        by (subst extract_loop.simps) simp
      with "1.IH"(2) [OF in_range False] show ?thesis by simp
    next
      case quote: True
      define j where "j = scan_close s (i + 1)"
      show ?thesis
      proof (cases "j < length s \<and> s ! j = dquote")
        case False
        with in_range quote have "extract_loop pos s i toks = toks"
          by (subst extract_loop.simps) (auto simp add: j_def Let_def)
        then show ?thesis by simp
      next
        case True
        with in_range quote have e: "extract_loop pos s i toks =
            extract_loop pos s (j + 1) (toks @ [Token STRING_LITERAL (slice s (i + 1) j) (pos + i)])"
          by (subst extract_loop.simps) (simp add: j_def Let_def)
        from "1.IH"(1) [OF in_range quote j_def True] obtain lits where
          "extract_loop pos s (j + 1) (toks @ [Token STRING_LITERAL (slice s (i + 1) j) (pos + i)]) =
             (toks @ [Token STRING_LITERAL (slice s (i + 1) j) (pos + i)]) @ lits"
          "\<forall>t \<in> set lits. ttype t = STRING_LITERAL" by blast
        with e have "extract_loop pos s i toks =
            toks @ (Token STRING_LITERAL (slice s (i + 1) j) (pos + i) # lits) \<and>
            (\<forall>t \<in> set (Token STRING_LITERAL (slice s (i + 1) j) (pos + i) # lits). ttype t = STRING_LITERAL)"
          by simp
        then show ?thesis by blast
      qed
    qed
  qed
qed

lemma find_sort_key_least:
  assumes "find P (sort_key f xs) = Some c"
  shows "c \<in> set xs \<and> P c \<and> (\<forall>c' \<in> set xs. P c' \<longrightarrow> f c \<le> f c')"
proof -
  let ?ys = "sort_key f xs"
  from assms obtain i where i: "i < length ?ys" "P (?ys ! i)" "c = ?ys ! i" "\<forall>j<i. \<not> P (?ys ! j)"
    by (auto simp add: find_Some_iff)
  have srt: "sorted (map f ?ys)" by simp
  from i(1) have "?ys ! i \<in> set ?ys" by (rule nth_mem)
  with i(3) have "c \<in> set ?ys" by (simp only:)
  then have 1: "c \<in> set xs" by simp
  have 3: "f c \<le> f c'" if "c' \<in> set xs" "P c'" for c'
  proof -
    from that have "c' \<in> set ?ys" by simp
    then obtain k where k: "k < length ?ys" "c' = ?ys ! k"
      using in_set_conv_nth [of c' ?ys] by blast
    with i(4) that(2) have "i \<le> k" by (meson not_le_imp_less)
    with srt k(1) have "map f ?ys ! i \<le> map f ?ys ! k"
      by (simp add: sorted_iff_nth_mono del: sorted_sort_key)
    with i k show ?thesis by simp
  qed
  from 1 i(2,3) 3 show ?thesis by blast
qed

lemma find_sort_key_None:
  "find P (sort_key f xs) = None \<longleftrightarrow> (\<forall>c \<in> set xs. \<not> P c)"
  by (auto simp add: find_None_iff)

lemma match_longest:
  assumes "find (startswith (lower s)) sorted_commands = Some c"
  shows "c \<in> set COMMANDS \<and> ci_prefix lower c s \<and>
         (\<forall>c' \<in> set COMMANDS. ci_prefix lower c' s \<longrightarrow> length c' \<le> length c)"
proof -
  from find_sort_key_least [OF assms [unfolded sorted_commands_def]]
  have "c \<in> set COMMANDS" and "startswith (lower s) c"
    and "\<forall>c' \<in> set COMMANDS. startswith (lower s) c' \<longrightarrow> length c' \<le> length c"
    by auto
  then show ?thesis by (simp add: ci_prefix_def)
qed

lemma match_none:
  "find (startswith (lower s)) sorted_commands = None \<longleftrightarrow>
     (\<forall>c \<in> set COMMANDS. \<not> ci_prefix lower c s)"
  by (simp add: sorted_commands_def find_sort_key_None ci_prefix_def)

lemma ci_prefix_same_length:
  assumes "ci_prefix lower c s" and "ci_prefix lower c' s" and "length c' = length c"
  shows "c' = c"
  using assms by (simp add: ci_prefix_def startswith_def)

lemma ex_list_prefix:
  "ci_prefix latin1_lower ''add item''
     (strip latin1_isspace (''  Add Item List '' @ quoted ''a''))"
  "ci_prefix latin1_lower ''add item list''
     (strip latin1_isspace (''  Add Item List '' @ quoted ''a''))"
  by code_simp+

lemma ex_list_tokens:
  "tokenize_text latin1_lower latin1_isspace (''  Add Item List '' @ quoted ''a'') =
     [Token COMMAND ''add item list'' 0, Token STRING_LITERAL ''a'' 13, Token EOF [] 13]"
  by code_simp

lemma ex_dance_tokens:
  "tokenize_text latin1_lower latin1_isspace (''dance '' @ quoted ''x'') = [Token EOF [] 0]"
  by code_simp

lemma ex_nbsp_prefix:
  "ci_prefix latin1_lower ''exit'' (strip latin1_isspace (CHR 0xA0 # ''EXIT''))"
  by code_simp

lemma ex_nbsp_tokens:
  "tokenize_text latin1_lower latin1_isspace (CHR 0xA0 # ''EXIT'') =
     [Token COMMAND ''exit'' 0, Token EOF [] 4]"
  by code_simp

text \<open>
  Claim C5. For every input text and every pair of builtins: when some phrase of the
  vocabulary is a prefix, up to case, of the trimmed input, the tokens are the Command token
  of a phrase that is such a prefix and is at least as long as every phrase that is one,
  then string literal tokens only, then the end token. When no phrase is such a prefix, the
  end token is the only token. \<open>tokenize_text\<close> is a total function: the two loops of the
  scanner terminate.
\<close>

theorem tokenize_longest_command:
  "(if \<exists>c \<in> set COMMANDS. ci_prefix lower c (strip isspace inp)
    then \<exists>c lits. c \<in> set COMMANDS \<and> ci_prefix lower c (strip isspace inp) \<and>
           (\<forall>c' \<in> set COMMANDS. ci_prefix lower c' (strip isspace inp) \<longrightarrow>
              length c' \<le> length c) \<and>
           tokenize_text lower isspace inp = Token COMMAND c 0 # lits @ [Token EOF [] (length c)] \<and>
           (\<forall>t \<in> set lits. ttype t = STRING_LITERAL)
    else tokenize_text lower isspace inp = [Token EOF [] 0])"
proof (cases "find (startswith (lower (strip isspace inp))) sorted_commands")
  case None
  then have "\<not> (\<exists>c \<in> set COMMANDS. ci_prefix lower c (strip isspace inp))"
    using match_none [of lower "strip isspace inp"] by simp
  moreover from None have "tokenize_text lower isspace inp = [Token EOF [] 0]"
    by (simp add: tokenize_text_unfold)
  ultimately show ?thesis by simp
next
  case (Some c)
  note m = match_longest [of lower "strip isspace inp" c, OF Some]
  obtain lits where l: "extract_loop (length c)
        (strip isspace (drop (length c) (strip isspace inp))) 0
        [Token COMMAND c 0] = [Token COMMAND c 0] @ lits"
    "\<forall>t \<in> set lits. ttype t = STRING_LITERAL"
    using extract_loop_appends by blast
  from Some l(1)
  have "tokenize_text lower isspace inp = Token COMMAND c 0 # lits @ [Token EOF [] (length c)]"
    by (simp add: tokenize_text_unfold)
  with m l(2) show ?thesis by auto
qed

text \<open>
  Both \<open>add item\<close> and \<open>add item list\<close> are prefixes, up to case, of the trimmed
  \<open>  Add Item List "a"\<close>, and the Command token is \<open>add item list\<close>. No phrase is a
  prefix of \<open>dance "x"\<close>. A no-break space before \<open>EXIT\<close> is trimmed.
\<close>

theorem tokenize_longest_command_witness:
  "ci_prefix latin1_lower ''add item''
     (strip latin1_isspace (''  Add Item List '' @ quoted ''a'')) \<and>
   ci_prefix latin1_lower ''add item list''
     (strip latin1_isspace (''  Add Item List '' @ quoted ''a'')) \<and>
   tokenize_text latin1_lower latin1_isspace (''  Add Item List '' @ quoted ''a'') =
     [Token COMMAND ''add item list'' 0, Token STRING_LITERAL ''a'' 13, Token EOF [] 13] \<and>
   tokenize_text latin1_lower latin1_isspace (''dance '' @ quoted ''x'') = [Token EOF [] 0] \<and>
   tokenize_text latin1_lower latin1_isspace (CHR 0xA0 # ''EXIT'') =
     [Token COMMAND ''exit'' 0, Token EOF [] 4]"
  using tokenize_longest_command [of latin1_lower latin1_isspace "''  Add Item List '' @ quoted ''a''"]
        tokenize_longest_command [of latin1_lower latin1_isspace "''dance '' @ quoted ''x''"]
        tokenize_longest_command [of latin1_lower latin1_isspace "CHR 0xA0 # ''EXIT''"]
  by (simp only: ex_list_prefix ex_list_tokens ex_dance_tokens ex_nbsp_tokens simp_thms)

subsection \<open>Tokenizer: no separator after the command phrase\<close>

lemma ex_exit_mem: "''exit'' \<in> set COMMANDS"
  by (simp add: COMMANDS_def)

lemma ex_add_item_mem: "''add item'' \<in> set COMMANDS"
  by (simp add: COMMANDS_def)

lemma ex_exitnow_prefix: "ci_prefix latin1_lower ''exit'' (strip latin1_isspace ''exitnow'')"
  by code_simp

lemma ex_items_prefix:
  "ci_prefix latin1_lower ''add item'' (strip latin1_isspace (''add items '' @ quoted ''x''))"
  by code_simp

lemma ex_exitnow_tokens:
  "tokenize_text latin1_lower latin1_isspace ''exitnow'' =
     [Token COMMAND ''exit'' 0, Token EOF [] 4]"
  by code_simp

lemma ex_items_tokens:
  "tokenize_text latin1_lower latin1_isspace (''add items '' @ quoted ''x'') =
     [Token COMMAND ''add item'' 0, Token STRING_LITERAL ''x'' 10, Token EOF [] 8]"
  by code_simp

lemma ex_nbsp_item_prefix:
  "ci_prefix latin1_lower ''add item''
     (strip latin1_isspace (''add item'' @ CHR 0xA0 # quoted ''x''))"
  by code_simp

lemma ex_nbsp_item_tokens:
  "tokenize_text latin1_lower latin1_isspace (''add item'' @ CHR 0xA0 # quoted ''x'') =
     [Token COMMAND ''add item'' 0, Token STRING_LITERAL ''x'' 8, Token EOF [] 8]"
  by code_simp

text \<open>
  Claim C10. Let a phrase \<open>c\<close> of the vocabulary be a prefix, up to case, of the trimmed
  input: the lower-cased, trimmed input begins with \<open>c\<close>, and nothing is asked of the
  character after it. Then the first token is the Command token of a phrase \<open>c'\<close> that
  is such a prefix and at least as long as \<open>c\<close>, the phrase \<open>c\<close> itself when no
  longer phrase is a prefix; and the string literals are those of the text that starts at
  the character right after \<open>c'\<close>. This holds for every pair of builtins.
\<close>

theorem command_needs_no_separator:
  assumes "c \<in> set COMMANDS" and "ci_prefix lower c (strip isspace inp)"
  shows "\<exists>c'. c' \<in> set COMMANDS \<and> ci_prefix lower c' (strip isspace inp) \<and>
           length c \<le> length c' \<and>
           ((\<forall>c'' \<in> set COMMANDS. ci_prefix lower c'' (strip isspace inp) \<longrightarrow>
               length c'' \<le> length c) \<longrightarrow> c' = c) \<and>
           tokenize_text lower isspace inp =
             extract_loop (length c') (strip isspace (drop (length c') (strip isspace inp))) 0
               [Token COMMAND c' 0]
             @ [Token EOF [] (length c')]"
proof (cases "find (startswith (lower (strip isspace inp))) sorted_commands")
  case None
  with assms show ?thesis using match_none [of lower "strip isspace inp"] by simp
next
  case (Some c')
  note m = match_longest [of lower "strip isspace inp" c', OF Some]
  from m assms have le: "length c \<le> length c'" by blast
  have eq: "c' = c"
    if "\<forall>c'' \<in> set COMMANDS. ci_prefix lower c'' (strip isspace inp) \<longrightarrow> length c'' \<le> length c"
  proof -
    from that m have "length c' \<le> length c" by blast
    with le have len: "length c' = length c" by simp
    from m have pre: "ci_prefix lower c' (strip isspace inp)" by blast
    from assms(2) pre len show ?thesis by (rule ci_prefix_same_length)
  qed
  from Some have "tokenize_text lower isspace inp =
      extract_loop (length c') (strip isspace (drop (length c') (strip isspace inp))) 0
        [Token COMMAND c' 0]
      @ [Token EOF [] (length c')]"
    by (simp add: tokenize_text_unfold)
  with m le eq show ?thesis by blast
qed

text \<open>
  \<open>exitnow\<close> gives the Command token \<open>exit\<close>; \<open>add items "x"\<close> gives the Command
  token \<open>add item\<close> and the literal \<open>x\<close>; so does \<open>add item\<close>, a no-break space and
  \<open>"x"\<close>, where the space is trimmed from the text after the phrase.
\<close>

theorem command_needs_no_separator_witness:
  "''exit'' \<in> set COMMANDS \<and> ci_prefix latin1_lower ''exit'' (strip latin1_isspace ''exitnow'') \<and>
   tokenize_text latin1_lower latin1_isspace ''exitnow'' =
     [Token COMMAND ''exit'' 0, Token EOF [] 4] \<and>
   ''add item'' \<in> set COMMANDS \<and>
   ci_prefix latin1_lower ''add item'' (strip latin1_isspace (''add items '' @ quoted ''x'')) \<and>
   tokenize_text latin1_lower latin1_isspace (''add items '' @ quoted ''x'') =
     [Token COMMAND ''add item'' 0, Token STRING_LITERAL ''x'' 10, Token EOF [] 8] \<and>
   ci_prefix latin1_lower ''add item''
     (strip latin1_isspace (''add item'' @ CHR 0xA0 # quoted ''x'')) \<and>
   tokenize_text latin1_lower latin1_isspace (''add item'' @ CHR 0xA0 # quoted ''x'') =
     [Token COMMAND ''add item'' 0, Token STRING_LITERAL ''x'' 8, Token EOF [] 8]"
  using command_needs_no_separator [OF ex_exit_mem ex_exitnow_prefix]
        command_needs_no_separator [OF ex_add_item_mem ex_items_prefix]
        command_needs_no_separator [OF ex_add_item_mem ex_nbsp_item_prefix]
  by (simp only: ex_exit_mem ex_add_item_mem ex_exitnow_prefix ex_items_prefix ex_exitnow_tokens
        ex_items_tokens ex_nbsp_item_prefix ex_nbsp_item_tokens simp_thms)

subsection \<open>Tokenizer: a quote that is not closed\<close>

lemma scan_skip:
  "dquote \<notin> set l \<Longrightarrow>
   scan_close (pre @ l @ sfx) (length pre) = scan_close (pre @ l @ sfx) (length pre + length l)"
proof (induction l arbitrary: pre)
  case Nil
  then show ?case by simp
next
  case (Cons x l)
  from Cons.prems have x: "x \<noteq> dquote" by auto
  have "scan_close (pre @ (x # l) @ sfx) (length pre) =
        scan_close (pre @ (x # l) @ sfx) (length pre + 1)"
    using x by (subst scan_close.simps) (simp add: nth_append)
  also have "\<dots> = scan_close ((pre @ [x]) @ l @ sfx) (length (pre @ [x]))" by simp
  also have "\<dots> = scan_close ((pre @ [x]) @ l @ sfx) (length (pre @ [x]) + length l)"
    using Cons.prems by (intro Cons.IH) simp
  finally show ?case by simp
qed

lemma scan_stop_quote: "scan_close (pre @ dquote # sfx) (length pre) = length pre"
  by (subst scan_close.simps) (simp add: nth_append)

lemma scan_stop_end: "scan_close pre (length pre) = length pre"
  by (subst scan_close.simps) simp

lemma scan_to_quote:
  assumes "dquote \<notin> set l"
  shows "scan_close (pre @ l @ dquote # sfx) (length pre) = length pre + length l"
  using scan_skip [OF assms, of pre "dquote # sfx"] scan_stop_quote [of "pre @ l" sfx] by simp

lemma scan_to_end:
  assumes "dquote \<notin> set l"
  shows "scan_close (pre @ l) (length pre) = length pre + length l"
  using scan_skip [OF assms, of pre "[]"] scan_stop_end [of "pre @ l"] by simp

lemma extract_skip:
  "dquote \<notin> set g \<Longrightarrow>
   extract_loop pos (pre @ g @ sfx) (length pre) toks =
   extract_loop pos (pre @ g @ sfx) (length pre + length g) toks"
proof (induction g arbitrary: pre)
  case Nil
  then show ?case by simp
next
  case (Cons x g)
  from Cons.prems have x: "x \<noteq> dquote" by auto
  have "extract_loop pos (pre @ (x # g) @ sfx) (length pre) toks =
        extract_loop pos (pre @ (x # g) @ sfx) (length pre + 1) toks"
    using x by (subst extract_loop.simps) (simp add: nth_append)
  also have "\<dots> = extract_loop pos ((pre @ [x]) @ g @ sfx) (length (pre @ [x])) toks" by simp
  also have "\<dots> = extract_loop pos ((pre @ [x]) @ g @ sfx) (length (pre @ [x]) + length g) toks"
    using Cons.prems by (intro Cons.IH) simp
  finally show ?case by simp
qed

lemma extract_unterminated:
  assumes "dquote \<notin> set rest"
  shows "extract_loop pos (pre @ dquote # rest) (length pre) toks = toks"
proof -
  have "scan_close (pre @ dquote # rest) (length pre + 1) = length (pre @ dquote # rest)"
    using scan_to_end [OF assms, of "pre @ [dquote]"] by simp
  then show ?thesis
    by (subst extract_loop.simps) (simp add: nth_append Let_def)
qed

lemma extract_literal:
  assumes "dquote \<notin> set l"
  shows "extract_loop pos (pre @ quoted l @ sfx) (length pre) toks =
         extract_loop pos (pre @ quoted l @ sfx) (length pre + length l + 2)
           (toks @ [Token STRING_LITERAL l (pos + length pre)])"
proof -
  define t where "t = pre @ quoted l @ sfx"
  have t: "t = (pre @ [dquote]) @ l @ dquote # sfx" by (simp add: t_def quoted_def)
  have j: "scan_close t (length pre + 1) = length pre + 1 + length l"
    unfolding t using scan_to_quote [OF assms, of "pre @ [dquote]" sfx] by simp
  have lt_i: "length pre < length t" by (simp add: t)
  have at_i: "t ! length pre = dquote" by (simp add: t nth_append)
  have at_j: "t ! (length pre + 1 + length l) = dquote"
    unfolding t by (simp add: nth_append)
  have lt_j: "length pre + 1 + length l < length t" by (simp add: t)
  have sl: "slice t (length pre + 1) (length pre + 1 + length l) = l"
    unfolding t by (simp add: slice_def)
  have "extract_loop pos t (length pre) toks =
        extract_loop pos t (length pre + 1 + length l + 1)
          (toks @ [Token STRING_LITERAL (slice t (length pre + 1) (length pre + 1 + length l))
                     (pos + length pre)])"
    by (subst extract_loop.simps) (simp only: lt_i at_i j lt_j at_j Let_def if_True simp_thms)
  then have "extract_loop pos t (length pre) toks =
        extract_loop pos t (length pre + 1 + length l + 1)
          (toks @ [Token STRING_LITERAL l (pos + length pre)])"
    by (simp only: sl)
  then show ?thesis unfolding t_def by simp
qed

lemma extract_render:
  assumes "\<forall>(g, l) \<in> set segs. dquote \<notin> set g \<and> dquote \<notin> set l"
  shows "extract_loop pos (pre @ render segs @ sfx) (length pre) toks =
         extract_loop pos (pre @ render segs @ sfx) (length pre + length (render segs))
           (toks @ literal_tokens pos (length pre) segs)"
  using assms
proof (induction segs arbitrary: pre toks)
  case Nil
  then show ?case by (simp add: render_def)
next
  case (Cons seg segs)
  obtain g l where seg: "seg = (g, l)" by (cases seg)
  from Cons.prems seg have g: "dquote \<notin> set g" and l: "dquote \<notin> set l"
    and rest: "\<forall>(g, l) \<in> set segs. dquote \<notin> set g \<and> dquote \<notin> set l"
    by auto
  define t where "t = pre @ render (seg # segs) @ sfx"
  have t1: "t = pre @ g @ (quoted l @ render segs @ sfx)" by (simp add: t_def render_def seg)
  have t2: "t = (pre @ g) @ quoted l @ (render segs @ sfx)" by (simp add: t1)
  have t3: "t = (pre @ g @ quoted l) @ render segs @ sfx" by (simp add: t1)
  have "extract_loop pos t (length pre) toks = extract_loop pos t (length pre + length g) toks"
    unfolding t1 by (rule extract_skip [OF g])
  also have "\<dots> = extract_loop pos t (length (pre @ g)) toks" by simp
  also have "\<dots> = extract_loop pos t (length (pre @ g) + length l + 2)
                       (toks @ [Token STRING_LITERAL l (pos + length (pre @ g))])"
    unfolding t2 by (rule extract_literal [OF l])
  also have "\<dots> = extract_loop pos t (length (pre @ g @ quoted l))
                       (toks @ [Token STRING_LITERAL l (pos + length (pre @ g))])"
    by (simp add: quoted_def add.assoc)
  also have "\<dots> = extract_loop pos t (length (pre @ g @ quoted l) + length (render segs))
                       ((toks @ [Token STRING_LITERAL l (pos + length (pre @ g))])
                         @ literal_tokens pos (length (pre @ g @ quoted l)) segs)"
    unfolding t3 by (rule Cons.IH [OF rest])
  also have "\<dots> = extract_loop pos t (length pre + length (render (seg # segs)))
                       (toks @ literal_tokens pos (length pre) (seg # segs))"
    by (simp add: seg render_def quoted_def add.assoc)
  finally show ?case unfolding t_def .
qed

lemma extract_render_unterminated:
  assumes segs: "\<forall>(g, l) \<in> set segs. dquote \<notin> set g \<and> dquote \<notin> set l"
    and g': "dquote \<notin> set g'" and rest: "dquote \<notin> set rest"
  shows "extract_loop pos (render segs @ g' @ dquote # rest) 0 toks =
         toks @ literal_tokens pos 0 segs"
proof -
  define t where "t = render segs @ g' @ dquote # rest"
  define toks' where "toks' = toks @ literal_tokens pos 0 segs"
  have t0: "t = [] @ render segs @ (g' @ dquote # rest)" by (simp add: t_def)
  have t1: "t = render segs @ g' @ (dquote # rest)" by (simp add: t_def)
  have t2: "t = (render segs @ g') @ dquote # rest" by (simp add: t_def)
  have "extract_loop pos t (length ([] :: string)) toks =
        extract_loop pos t (length ([] :: string) + length (render segs))
          (toks @ literal_tokens pos (length ([] :: string)) segs)"
    unfolding t0 by (rule extract_render [OF segs])
  then have "extract_loop pos t 0 toks = extract_loop pos t (length (render segs)) toks'"
    by (simp add: toks'_def)
  also have "\<dots> = extract_loop pos t (length (render segs) + length g') toks'"
    unfolding t1 by (rule extract_skip [OF g'])
  also have "\<dots> = extract_loop pos t (length (render segs @ g')) toks'" by simp
  also have "\<dots> = toks'"
    unfolding t2 by (rule extract_unterminated [OF rest])
  finally show ?thesis unfolding t_def toks'_def .
qed

lemma literal_tokens_values: "map tvalue (literal_tokens pos i segs) = map snd segs"
  by (induction segs arbitrary: i) auto

lemma literal_tokens_types: "\<forall>t \<in> set (literal_tokens pos i segs). ttype t = STRING_LITERAL"
  by (induction segs arbitrary: i) auto

lemma lstrip_stop: "\<not> P q \<Longrightarrow> dropWhile P (g @ q # r) = dropWhile P g @ q # r"
  by (induction g) auto

lemma rstrip_stop:
  assumes "\<not> P q"
  shows "rev (dropWhile P (rev (a @ q # r))) = a @ q # rev (dropWhile P (rev r))"
proof -
  have "rev (a @ q # r) = rev r @ q # rev a" by simp
  then have "dropWhile P (rev (a @ q # r)) = dropWhile P (rev r) @ q # rev a"
    using lstrip_stop [of P q "rev r" "rev a", OF assms] by simp
  then show ?thesis by simp
qed

lemma set_rstrip: "set (rev (dropWhile P (rev r))) \<subseteq> set r"
  using set_dropWhileD [of _ P "rev r"] by auto

lemma set_lstrip: "set (dropWhile P g) \<subseteq> set g"
  using set_dropWhileD [of _ P g] by auto

lemma strip_render:
  assumes ns: "\<not> isspace dquote"
    and segs: "\<forall>(g, l) \<in> set segs. dquote \<notin> set g \<and> dquote \<notin> set l"
    and g': "dquote \<notin> set g'" and rest: "dquote \<notin> set rest"
  shows "\<exists>segs' g'' rest'.
           strip isspace (render segs @ g' @ dquote # rest) = render segs' @ g'' @ dquote # rest' \<and>
           map snd segs' = map snd segs \<and>
           (\<forall>(g, l) \<in> set segs'. dquote \<notin> set g \<and> dquote \<notin> set l) \<and>
           dquote \<notin> set g'' \<and> dquote \<notin> set rest'"
proof -
  define rest' where "rest' = rev (dropWhile isspace (rev rest))"
  have r': "dquote \<notin> set rest'"
    using rest set_rstrip [of isspace rest] by (auto simp add: rest'_def)
  show ?thesis
  proof (cases segs)
    case Nil
    have "dropWhile isspace (g' @ dquote # rest) = dropWhile isspace g' @ dquote # rest"
      by (rule lstrip_stop [of isspace dquote g' rest, OF ns])
    then have "strip isspace (render segs @ g' @ dquote # rest) =
        render [] @ dropWhile isspace g' @ dquote # rest'"
      using rstrip_stop [of isspace dquote "dropWhile isspace g'" rest, OF ns]
      by (simp add: strip_def Nil render_def rest'_def)
    moreover have "dquote \<notin> set (dropWhile isspace g')"
      using g' set_lstrip [of isspace g'] by auto
    ultimately show ?thesis using r' Nil by fastforce
  next
    case (Cons seg ss)
    obtain g l where seg: "seg = (g, l)" by (cases seg)
    define body where "body = l @ dquote # render ss @ g'"
    have t: "render segs @ g' @ dquote # rest = g @ dquote # (body @ dquote # rest)"
      by (simp add: Cons seg render_def quoted_def body_def)
    have "dropWhile isspace (render segs @ g' @ dquote # rest) =
          dropWhile isspace g @ dquote # (body @ dquote # rest)"
      unfolding t by (rule lstrip_stop [of isspace dquote g "body @ dquote # rest", OF ns])
    also have "\<dots> = (dropWhile isspace g @ dquote # body) @ dquote # rest" by simp
    finally have "strip isspace (render segs @ g' @ dquote # rest) =
        (dropWhile isspace g @ dquote # body) @ dquote # rest'"
      using rstrip_stop [of isspace dquote "dropWhile isspace g @ dquote # body" rest, OF ns]
      by (simp add: strip_def rest'_def)
    also have "(dropWhile isspace g @ dquote # body) @ dquote # rest' =
        render ((dropWhile isspace g, l) # ss) @ g' @ dquote # rest'"
      by (simp add: render_def quoted_def body_def)
    finally have e: "strip isspace (render segs @ g' @ dquote # rest) =
        render ((dropWhile isspace g, l) # ss) @ g' @ dquote # rest'" .
    have m: "map snd ((dropWhile isspace g, l) # ss) = map snd segs"
      by (simp add: Cons seg)
    from segs Cons seg have "dquote \<notin> set g" "dquote \<notin> set l"
      and ss: "\<forall>(g, l) \<in> set ss. dquote \<notin> set g \<and> dquote \<notin> set l"
      by auto
    then have q: "\<forall>(g, l) \<in> set ((dropWhile isspace g, l) # ss). dquote \<notin> set g \<and> dquote \<notin> set l"
      using set_lstrip [of isspace g] by auto
    from e m q g' r' show ?thesis by blast
  qed
qed

lemma open_quote_text:
  "drop (position open_quote_tokenizer) (input open_quote_tokenizer) =
     render [('' '', ''a'')] @ '' '' @ dquote # ''b c''"
  by (simp add: open_quote_tokenizer_def render_def)

lemma open_quote_extract:
  "extract_string_literals latin1_isspace open_quote_tokenizer =
     open_quote_tokenizer
       \<lparr>tokens := [Token COMMAND ''add item list'' 0, Token STRING_LITERAL ''a'' 13]\<rparr>"
  by code_simp

lemma open_quote_tokens:
  "tokenize_text latin1_lower latin1_isspace
     (''add item list '' @ quoted ''a'' @ '' '' @ dquote # ''b c'') =
     [Token COMMAND ''add item list'' 0, Token STRING_LITERAL ''a'' 13, Token EOF [] 13]"
  by code_simp

lemma odd_quotes_render:
  "odd (count_list s dquote) \<Longrightarrow>
   \<exists>segs g' rest. s = render segs @ g' @ dquote # rest \<and>
     (\<forall>(g, l) \<in> set segs. dquote \<notin> set g \<and> dquote \<notin> set l) \<and>
     dquote \<notin> set g' \<and> dquote \<notin> set rest"
proof (induction s rule: length_induct)
  case (1 s)
  from "1.prems" have "count_list s dquote \<noteq> 0" by (metis even_zero)
  then have "dquote \<in> set s" by (simp add: count_list_0_iff)
  then obtain g r where s: "s = g @ dquote # r" and g: "dquote \<notin> set g"
    by (meson split_list_first)
  from g have cg: "count_list g dquote = 0" by (simp add: count_list_0_iff)
  show ?case
  proof (cases "dquote \<in> set r")
    case False
    have "s = render [] @ g @ dquote # r" by (simp add: s render_def)
    with g False show ?thesis by fastforce
  next
    case True
    then obtain l r' where r: "r = l @ dquote # r'" and l: "dquote \<notin> set l"
      by (meson split_list_first)
    from l have cl: "count_list l dquote = 0" by (simp add: count_list_0_iff)
    from "1.prems" have "odd (count_list r' dquote)" by (simp add: s r cg cl)
    moreover have "length r' < length s" by (simp add: s r)
    ultimately obtain segs g' rest where
      e: "r' = render segs @ g' @ dquote # rest"
      and q: "\<forall>(g, l) \<in> set segs. dquote \<notin> set g \<and> dquote \<notin> set l"
        "dquote \<notin> set g'" "dquote \<notin> set rest"
      using "1.IH" by blast
    have "s = render ((g, l) # segs) @ g' @ dquote # rest"
      by (simp add: s r e render_def quoted_def)
    moreover have "\<forall>(g, l) \<in> set ((g, l) # segs). dquote \<notin> set g \<and> dquote \<notin> set l"
      using g l q(1) by simp
    ultimately show ?thesis using q(2,3) by blast
  qed
qed

lemma open_quote_odd:
  "odd (count_list (drop (position open_quote_tokenizer) (input open_quote_tokenizer)) dquote)"
  by (simp add: open_quote_tokenizer_def quoted_def dquote_def)

text \<open>
  Claim C8. Let the text after the command phrase hold an odd number of double quotes:
  paired from the left, the last one opens a literal that nothing closes. The text is then
  a sequence of complete string literals, each after a gap without a quote, followed by a
  gap, the opening quote and a rest without a quote. \<open>extract_string_literals\<close>
  returns, with no error, the tokenizer with string literal tokens appended whose values
  are the texts of the complete literals in their order; the text from the quote that is
  not closed gives no token. The one thing asked of the builtin is that
  \<^verbatim>\<open>str.isspace\<close> is false of the double quote, so that \<^verbatim>\<open>str.strip\<close>
  removes none.
\<close>

theorem unterminated_quote_stops:
  assumes "\<not> isspace dquote"
    and "odd (count_list (drop (position self) (input self)) dquote)"
  shows "\<exists>segs g' rest lits.
           drop (position self) (input self) = render segs @ g' @ dquote # rest \<and>
           (\<forall>(g, l) \<in> set segs. dquote \<notin> set g \<and> dquote \<notin> set l) \<and>
           dquote \<notin> set g' \<and> dquote \<notin> set rest \<and>
           extract_string_literals isspace self = self\<lparr>tokens := tokens self @ lits\<rparr> \<and>
           map tvalue lits = map snd segs \<and>
           (\<forall>t \<in> set lits. ttype t = STRING_LITERAL)"
proof -
  from odd_quotes_render [OF assms(2)] obtain segs g' rest where
    d: "drop (position self) (input self) = render segs @ g' @ dquote # rest"
    and p: "\<forall>(g, l) \<in> set segs. dquote \<notin> set g \<and> dquote \<notin> set l"
      "dquote \<notin> set g'" "dquote \<notin> set rest"
    by blast
  from strip_render [of isspace segs g' rest, OF assms(1) p] obtain segs' g'' rest' where
    e: "strip isspace (render segs @ g' @ dquote # rest) = render segs' @ g'' @ dquote # rest'"
    and m: "map snd segs' = map snd segs"
    and q: "\<forall>(g, l) \<in> set segs'. dquote \<notin> set g \<and> dquote \<notin> set l"
      "dquote \<notin> set g''" "dquote \<notin> set rest'"
    by blast
  have x: "extract_string_literals isspace self =
      self\<lparr>tokens := tokens self @ literal_tokens (position self) 0 segs'\<rparr>"
    by (simp add: extract_string_literals_def Let_def d e extract_render_unterminated [OF q])
  have v: "map tvalue (literal_tokens (position self) 0 segs') = map snd segs"
    by (simp add: literal_tokens_values m)
  from d p x v literal_tokens_types [of "position self" 0 segs'] show ?thesis by blast
qed

text \<open>
  \<open>add item list "a" "b c\<close>: three quotes, the third is not closed. The literal
  \<open>a\<close> is a token, the text \<open>b c\<close> is none.
\<close>

theorem unterminated_quote_stops_witness:
  "\<not> latin1_isspace dquote \<and>
   odd (count_list (drop (position open_quote_tokenizer) (input open_quote_tokenizer)) dquote) \<and>
   drop (position open_quote_tokenizer) (input open_quote_tokenizer) =
     render [('' '', ''a'')] @ '' '' @ dquote # ''b c'' \<and>
   extract_string_literals latin1_isspace open_quote_tokenizer =
     open_quote_tokenizer
       \<lparr>tokens := [Token COMMAND ''add item list'' 0, Token STRING_LITERAL ''a'' 13]\<rparr> \<and>
   tokenize_text latin1_lower latin1_isspace
     (''add item list '' @ quoted ''a'' @ '' '' @ dquote # ''b c'') =
     [Token COMMAND ''add item list'' 0, Token STRING_LITERAL ''a'' 13, Token EOF [] 13]"
  using unterminated_quote_stops [of latin1_isspace open_quote_tokenizer,
          OF latin1_dquote open_quote_odd]
        latin1_dquote open_quote_odd open_quote_text open_quote_extract open_quote_tokens
  by (simp only: simp_thms)

end
